theory Spec2Isabelle
  imports Complex_Main "HOL-Library.Sublist" "HOL-Library.Log_Nat"
begin

section \<open>Emergency service call logs: data model\<close>

text \<open>
  The program under study is the Python class \<open>EmergencyServicePerformance\<close> of
  \<^verbatim>\<open>Emergency2.py\<close>. It keeps a list of call records and computes averages over it.

  A Python \<open>datetime\<close> without time zone is a point on a timeline with a resolution of
  one microsecond, and comparison and subtraction of two such values are comparison and
  subtraction of their microsecond counts. A \<open>datetime\<close> is therefore modelled by the
  number of microseconds since 0001-01-01 00:00, and a \<open>timedelta\<close> by a (signed) number
  of microseconds. Python bounds a \<open>timedelta\<close>: every operation that makes one raises
  \<open>OverflowError\<close> when the result is not within the bound (section Durations).
\<close>

type_synonym datetime = int
type_synonym timedelta = int

text \<open>
  The call records are dictionaries with six fixed keys; they become a record with
  six fields of the same names.
\<close>

record call_record =
  call_id :: int
  call_time :: datetime
  dispatch_time :: datetime
  arrival_time :: datetime
  resolution_time :: datetime
  success :: bool

text \<open>The only attribute of the class is the list \<open>call_logs\<close>.\<close>

record EmergencyServicePerformance =
  call_logs :: "call_record list"

text \<open>
  The exceptions that the code can raise. Every \<^verbatim>\<open>raise\<close> of the source raises a
  \<open>ValueError\<close> with a message; a division by zero would raise \<open>ZeroDivisionError\<close>,
  and a duration out of the bound of a \<open>timedelta\<close> raises \<open>OverflowError\<close>.
\<close>

datatype error = ValueError string | ZeroDivisionError | OverflowError

text \<open>
  A method takes the object and returns what it returns or raises, together with the
  object after the call (Python mutates \<open>self\<close> in place).
\<close>

type_synonym 'a outcome = "(error + 'a) \<times> EmergencyServicePerformance"

definition init :: EmergencyServicePerformance where
  "init = \<lparr>call_logs = []\<rparr>"

section \<open>Insertion\<close>

text \<open>
  \<^verbatim>\<open>
  if not (call_time <= dispatch_time <= arrival_time <= resolution_time):
      raise ValueError("Timestamps are not in logical order.")
  call_record = {...}
  self.call_logs.append(call_record)
  \<close>
  A chained comparison of Python is the conjunction of its links.
\<close>

definition add_call_log ::
  "EmergencyServicePerformance \<Rightarrow> int \<Rightarrow> datetime \<Rightarrow> datetime \<Rightarrow> datetime \<Rightarrow> datetime \<Rightarrow> bool
     \<Rightarrow> unit outcome" where
  "add_call_log self call_id' call_time' dispatch_time' arrival_time' resolution_time' success' =
     (if \<not> (call_time' \<le> dispatch_time' \<and> dispatch_time' \<le> arrival_time'
              \<and> arrival_time' \<le> resolution_time')
      then (Inl (ValueError ''Timestamps are not in logical order.''), self)
      else
        let call_record = \<lparr>call_id = call_id', call_time = call_time',
                             dispatch_time = dispatch_time', arrival_time = arrival_time',
                             resolution_time = resolution_time', success = success'\<rparr>
        in (Inr (), self\<lparr>call_logs := call_logs self @ [call_record]\<rparr>))"

text \<open>
  \<^verbatim>\<open>
  for call in calls:
      self.add_call_log(call_id=call['call_id'], ..., success=call['success'])
  \<close>
  The loop stops at the first exception, which leaves the method with the object as it
  is at that moment.
\<close>

fun add_multiple_call_logs ::
  "EmergencyServicePerformance \<Rightarrow> call_record list \<Rightarrow> unit outcome" where
  "add_multiple_call_logs self [] = (Inr (), self)"
| "add_multiple_call_logs self (call # calls) =
     (case add_call_log self (call_id call) (call_time call) (dispatch_time call)
             (arrival_time call) (resolution_time call) (success call) of
        (Inl e, self') \<Rightarrow> (Inl e, self')
      | (Inr _, self') \<Rightarrow> add_multiple_call_logs self' calls)"

section \<open>Durations\<close>

text \<open>
  A \<open>timedelta\<close> holds between \<open>- 999999999\<close> days and \<open>999999999\<close> days, 23 hours,
  59 minutes, 59.999999 seconds. Python builds every \<open>timedelta\<close> through one
  constructor, which raises \<open>OverflowError\<close> out of these bounds: so do the difference
  of two \<open>datetime\<close>s, the sum of two \<open>timedelta\<close>s and the quotient of a \<open>timedelta\<close>
  by an \<open>int\<close>. (The difference of two \<open>datetime\<close>s of Python is always within the
  bounds, since they lie between the years 1 and 9999.)
\<close>

definition timedelta_in_range :: "int \<Rightarrow> bool" where
  "timedelta_in_range us \<longleftrightarrow>
     - (999999999 * 86400000000) \<le> us \<and> us < 1000000000 * 86400000000"

definition new_timedelta :: "int \<Rightarrow> error + timedelta" where
  "new_timedelta us = (if timedelta_in_range us then Inr us else Inl OverflowError)"

definition datetime_sub :: "datetime \<Rightarrow> datetime \<Rightarrow> error + timedelta" where
  "datetime_sub a b = new_timedelta (a - b)"

definition timedelta_add :: "timedelta \<Rightarrow> timedelta \<Rightarrow> error + timedelta" where
  "timedelta_add a b = new_timedelta (a + b)"

text \<open>
  Dividing a \<open>timedelta\<close> by an \<open>int\<close> divides its microsecond count and rounds the
  quotient to the nearest integer, a tie going to the even neighbour. Python's
  \<open>datetime\<close> module does it with
  \<^verbatim>\<open>
  def _divide_and_round(a, b):
      q, r = divmod(a, b)
      r *= 2
      greater_than_half = r > b if b > 0 else r < b
      if greater_than_half or r == b and q % 2 == 1:
          q += 1
      return q
  \<close>
  where \<open>divmod\<close> is division with floor, as \<open>div\<close> and \<open>mod\<close> on \<open>int\<close> are.
  The division raises \<open>ZeroDivisionError\<close> when the divisor is zero.
\<close>

definition divide_and_round :: "int \<Rightarrow> int \<Rightarrow> int" where
  "divide_and_round a b =
     (let q = a div b; r = 2 * (a mod b);
          greater_than_half = (if b > 0 then r > b else r < b)
      in if greater_than_half \<or> (r = b \<and> q mod 2 = 1) then q + 1 else q)"

definition timedelta_truediv :: "timedelta \<Rightarrow> int \<Rightarrow> error + timedelta" where
  "timedelta_truediv td n =
     (if n = 0 then Inl ZeroDivisionError else new_timedelta (divide_and_round td n))"

section \<open>Average response and resolution time\<close>

text \<open>
  \<^verbatim>\<open>
  total_response_time = timedelta()
  for call in self.call_logs:
      response_time = call['arrival_time'] - call['call_time']
      total_response_time += response_time
  \<close>
  The loop, with the running total as an argument. An exception of the subtraction or
  of the addition ends the loop and the method.
\<close>

fun response_time_loop :: "call_record list \<Rightarrow> timedelta \<Rightarrow> error + timedelta" where
  "response_time_loop [] total_response_time = Inr total_response_time"
| "response_time_loop (call # calls) total_response_time =
     (case datetime_sub (arrival_time call) (call_time call) of
        Inl e \<Rightarrow> Inl e
      | Inr response_time \<Rightarrow>
          (case timedelta_add total_response_time response_time of
             Inl e \<Rightarrow> Inl e
           | Inr total_response_time' \<Rightarrow> response_time_loop calls total_response_time'))"

definition average_response_time :: "EmergencyServicePerformance \<Rightarrow> timedelta outcome" where
  "average_response_time self =
     (if call_logs self = []
      then (Inl (ValueError ''No call logs available to calculate average response time.''), self)
      else
        case response_time_loop (call_logs self) 0 of
          Inl e \<Rightarrow> (Inl e, self)
        | Inr total_response_time \<Rightarrow>
            (timedelta_truediv total_response_time (int (length (call_logs self))), self))"

fun resolution_time_loop :: "call_record list \<Rightarrow> timedelta \<Rightarrow> error + timedelta" where
  "resolution_time_loop [] total_resolution_time = Inr total_resolution_time"
| "resolution_time_loop (call # calls) total_resolution_time =
     (case datetime_sub (resolution_time call) (call_time call) of
        Inl e \<Rightarrow> Inl e
      | Inr resolution_time' \<Rightarrow>
          (case timedelta_add total_resolution_time resolution_time' of
             Inl e \<Rightarrow> Inl e
           | Inr total_resolution_time' \<Rightarrow> resolution_time_loop calls total_resolution_time'))"

definition average_resolution_time :: "EmergencyServicePerformance \<Rightarrow> timedelta outcome" where
  "average_resolution_time self =
     (if call_logs self = []
      then (Inl (ValueError ''No call logs available to calculate average resolution time.''), self)
      else
        case resolution_time_loop (call_logs self) 0 of
          Inl e \<Rightarrow> (Inl e, self)
        | Inr total_resolution_time \<Rightarrow>
            (timedelta_truediv total_resolution_time (int (length (call_logs self))), self))"

text \<open>
  The durations that \<open>average_response_time\<close> can add up: each of them, and each
  running total of them from the front, is within the bounds of a \<open>timedelta\<close>.
\<close>

definition durations_in_range :: "timedelta list \<Rightarrow> bool" where
  "durations_in_range ds \<longleftrightarrow>
     list_all timedelta_in_range ds
     \<and> list_all (\<lambda>k. timedelta_in_range (sum_list (take k ds))) [0..<Suc (length ds)]"

section \<open>Calls in a time frame\<close>

text \<open>
  \<^verbatim>\<open>
  filtered_calls = [call for call in self.call_logs
                    if start_time <= call['call_time'] <= end_time]
  \<close>
  The comprehension walks the list from the front and keeps the calls that pass the test.
\<close>

fun filtered_calls :: "datetime \<Rightarrow> datetime \<Rightarrow> call_record list \<Rightarrow> call_record list" where
  "filtered_calls start_time end_time [] = []"
| "filtered_calls start_time end_time (call # calls) =
     (if start_time \<le> call_time call \<and> call_time call \<le> end_time
      then call # filtered_calls start_time end_time calls
      else filtered_calls start_time end_time calls)"

definition calls_in_timeframe ::
  "EmergencyServicePerformance \<Rightarrow> datetime \<Rightarrow> datetime \<Rightarrow> call_record list outcome" where
  "calls_in_timeframe self start_time end_time =
     (Inr (filtered_calls start_time end_time (call_logs self)), self)"

section \<open>Success rate\<close>

text \<open>
  \<open>success_rate\<close> returns a Python \<open>float\<close>, an IEEE 754 binary64 number. Every
  finite binary64 number is a rational, so a \<open>float\<close> is modelled by its value, and an
  operation on floats by the exact operation followed by the rounding of IEEE 754:
  to the nearest number with a significand of 53 bits, a tie going to the even
  significand, with the exponent of the unit in the last place held at \<open>- 1074\<close> for
  the subnormal numbers. The rounding is that of finite results: it applies below
  \<open>2 ^ 1024\<close>, and all the numbers of \<open>success_rate\<close> lie between \<open>0\<close> and \<open>10 ^ 19\<close>.
\<close>

type_synonym pyfloat = rat

definition round_half_even :: "rat \<Rightarrow> int" where
  "round_half_even x =
     (let n = \<lfloor>x\<rfloor>; d = x - of_int n
      in if d < 1 / 2 then n else if 1 / 2 < d then n + 1 else if even n then n else n + 1)"

text \<open>
  The exponent \<open>e\<close> of a positive rational \<open>x\<close>, with \<open>2 ^ e \<le> x < 2 ^ (e + 1)\<close>, from
  the bit lengths of its numerator and denominator.
\<close>

definition floor_log2 :: "rat \<Rightarrow> int" where
  "floor_log2 x =
     (let (p, q) = quotient_of x; e = bitlen p - bitlen q
      in if 2 powi e \<le> x then e else e - 1)"

definition ulp :: "rat \<Rightarrow> rat" where
  "ulp x = 2 powi (max (floor_log2 \<bar>x\<bar>) (- 1022) - 52)"

definition float_round :: "rat \<Rightarrow> pyfloat" where
  "float_round x = (if x = 0 then 0 else of_int (round_half_even (x / ulp x)) * ulp x)"

text \<open>
  \<open>a / b\<close> on two \<open>int\<close>s is the correctly rounded quotient, and raises
  \<open>ZeroDivisionError\<close> when \<open>b\<close> is zero; \<open>x * n\<close> on a \<open>float\<close> and an \<open>int\<close> converts
  \<open>n\<close> to a float and multiplies.
\<close>

definition int_truediv :: "int \<Rightarrow> int \<Rightarrow> error + pyfloat" where
  "int_truediv a b =
     (if b = 0 then Inl ZeroDivisionError else Inr (float_round (of_int a / of_int b)))"

definition float_mul_int :: "pyfloat \<Rightarrow> int \<Rightarrow> pyfloat" where
  "float_mul_int x n = float_round (x * float_round (of_int n))"

text \<open>
  \<^verbatim>\<open>
  successful_calls = sum(call['success'] for call in self.call_logs)
  rate = (successful_calls / len(self.call_logs)) * 10000000000000000000
  \<close>
  \<open>sum\<close> starts from \<open>0\<close> and adds the items from the front; a \<open>bool\<close> counts as
  \<open>1\<close> or \<open>0\<close>.
\<close>

fun successful_calls_loop :: "call_record list \<Rightarrow> int \<Rightarrow> int" where
  "successful_calls_loop [] start = start"
| "successful_calls_loop (call # calls) start =
     successful_calls_loop calls (start + (if success call then 1 else 0))"

definition success_rate :: "EmergencyServicePerformance \<Rightarrow> pyfloat outcome" where
  "success_rate self =
     (if call_logs self = []
      then (Inl (ValueError ''No call logs available to calculate success rate.''), self)
      else
        let successful_calls = successful_calls_loop (call_logs self) 0
        in case int_truediv successful_calls (int (length (call_logs self))) of
             Inl e \<Rightarrow> (Inl e, self)
           | Inr fraction \<Rightarrow> (Inr (float_mul_int fraction 10000000000000000000), self))"

section \<open>Sequences of operations\<close>

text \<open>
  The methods of the class, as the operations a caller can apply to an object, and the
  object that a sequence of calls leaves behind, whatever each call returned or raised.
\<close>

datatype operation =
    Add_call_log int datetime datetime datetime datetime bool
  | Add_multiple_call_logs "call_record list"
  | Average_response_time
  | Success_rate
  | Average_resolution_time
  | Calls_in_timeframe datetime datetime

fun apply_operation :: "EmergencyServicePerformance \<Rightarrow> operation \<Rightarrow> EmergencyServicePerformance" where
  "apply_operation self (Add_call_log i c d a r s) = snd (add_call_log self i c d a r s)"
| "apply_operation self (Add_multiple_call_logs calls) = snd (add_multiple_call_logs self calls)"
| "apply_operation self Average_response_time = snd (average_response_time self)"
| "apply_operation self Success_rate = snd (success_rate self)"
| "apply_operation self Average_resolution_time = snd (average_resolution_time self)"
| "apply_operation self (Calls_in_timeframe start_time end_time) =
     snd (calls_in_timeframe self start_time end_time)"

definition run :: "operation list \<Rightarrow> EmergencyServicePerformance" where
  "run ops = foldl apply_operation init ops"

text \<open>The test of \<open>add_call_log\<close>, on a stored record.\<close>

definition in_logical_order :: "call_record \<Rightarrow> bool" where
  "in_logical_order call \<longleftrightarrow>
     call_time call \<le> dispatch_time call \<and> dispatch_time call \<le> arrival_time call
       \<and> arrival_time call \<le> resolution_time call"

section \<open>Calendar dates\<close>

text \<open>
  The constructor \<open>datetime(year, month, day, hour, minute)\<close>, here \<open>mk_datetime\<close>,
  for a date of the calendar (a month from 1 to 12 and a day of that month; Python
  refuses any other). Python numbers the days from 0001-01-01, which is day 1, with
  \<^verbatim>\<open>
  def _is_leap(year):
      return year % 4 == 0 and (year % 100 != 0 or year % 400 == 0)
  def _days_before_year(year):
      y = year - 1
      return y*365 + y//4 - y//100 + y//400
  def _days_before_month(year, month):
      return _DAYS_BEFORE_MONTH[month] + (month > 2 and _is_leap(year))
  def _ymd2ord(year, month, day):
      return _days_before_year(year) + _days_before_month(year, month) + day
  \<close>
\<close>

definition is_leap :: "int \<Rightarrow> bool" where
  "is_leap year \<longleftrightarrow> year mod 4 = 0 \<and> (year mod 100 \<noteq> 0 \<or> year mod 400 = 0)"

definition days_before_year :: "int \<Rightarrow> int" where
  "days_before_year year =
     (let y = year - 1 in y * 365 + y div 4 - y div 100 + y div 400)"

definition DAYS_BEFORE_MONTH :: "int list" where
  "DAYS_BEFORE_MONTH = [- 1, 0, 31, 59, 90, 120, 151, 181, 212, 243, 273, 304, 334]"

definition days_before_month :: "int \<Rightarrow> int \<Rightarrow> int" where
  "days_before_month year month =
     DAYS_BEFORE_MONTH ! nat month + (if month > 2 \<and> is_leap year then 1 else 0)"

definition ymd2ord :: "int \<Rightarrow> int \<Rightarrow> int \<Rightarrow> int" where
  "ymd2ord year month day = days_before_year year + days_before_month year month + day"

definition minutes :: "int \<Rightarrow> timedelta" where
  "minutes n = n * 60000000"

definition seconds :: "int \<Rightarrow> timedelta" where
  "seconds n = n * 1000000"

definition mk_datetime :: "int \<Rightarrow> int \<Rightarrow> int \<Rightarrow> int \<Rightarrow> int \<Rightarrow> datetime" where
  "mk_datetime year month day hour minute =
     (ymd2ord year month day - 1) * 86400000000 + minutes (hour * 60 + minute)"

section \<open>The example of the source\<close>

text \<open>
  The three calls that the \<^verbatim>\<open>__main__\<close> block of the source inserts, the store that
  holds them, and some stores and operation sequences made of them, for concrete
  instances of the theorems.
\<close>

definition example_call_1 :: call_record where
  "example_call_1 =
     \<lparr>call_id = 1, call_time = mk_datetime 2023 10 1 14 30,
      dispatch_time = mk_datetime 2023 10 1 14 31,
      arrival_time = mk_datetime 2023 10 1 14 35,
      resolution_time = mk_datetime 2023 10 1 14 50, success = True\<rparr>"

definition example_call_2 :: call_record where
  "example_call_2 =
     \<lparr>call_id = 2, call_time = mk_datetime 2023 10 2 9 15,
      dispatch_time = mk_datetime 2023 10 2 9 16,
      arrival_time = mk_datetime 2023 10 2 9 20,
      resolution_time = mk_datetime 2023 10 2 9 45, success = False\<rparr>"

definition example_call_3 :: call_record where
  "example_call_3 =
     \<lparr>call_id = 3, call_time = mk_datetime 2023 10 3 20 5,
      dispatch_time = mk_datetime 2023 10 3 20 6,
      arrival_time = mk_datetime 2023 10 3 20 10,
      resolution_time = mk_datetime 2023 10 3 20 30, success = True\<rparr>"

definition example_store :: EmergencyServicePerformance where
  "example_store = \<lparr>call_logs = [example_call_1, example_call_2, example_call_3]\<rparr>"

definition example_store_twice :: EmergencyServicePerformance where
  "example_store_twice =
     \<lparr>call_logs = [example_call_1, example_call_2, example_call_3,
                   example_call_1, example_call_2, example_call_3]\<rparr>"

definition example_two_calls :: EmergencyServicePerformance where
  "example_two_calls = \<lparr>call_logs = [example_call_1, example_call_2]\<rparr>"

text \<open>
  A call that lasts from the first minute to the last minute of Python's calendar, and
  the store of 274 such calls.
\<close>

definition long_call :: call_record where
  "long_call =
     \<lparr>call_id = 1, call_time = mk_datetime 1 1 1 0 0,
      dispatch_time = mk_datetime 1 1 1 0 0,
      arrival_time = mk_datetime 9999 12 31 23 59,
      resolution_time = mk_datetime 9999 12 31 23 59, success = True\<rparr>"

definition overflow_store :: EmergencyServicePerformance where
  "overflow_store = \<lparr>call_logs = replicate 274 long_call\<rparr>"

text \<open>A call whose timestamps run backwards, which \<open>add_call_log\<close> refuses.\<close>

definition backwards_call :: call_record where
  "backwards_call =
     \<lparr>call_id = 4, call_time = 40, dispatch_time = 30, arrival_time = 20,
      resolution_time = 10, success = True\<rparr>"

definition example_ops :: "operation list" where
  "example_ops =
     [Average_response_time,
      Add_call_log 1 10 20 30 40 True,
      Add_call_log 2 40 30 20 10 True,
      Add_multiple_call_logs
        [\<lparr>call_id = 3, call_time = 1, dispatch_time = 2, arrival_time = 3,
           resolution_time = 4, success = False\<rparr>,
         backwards_call,
         \<lparr>call_id = 5, call_time = 5, dispatch_time = 6, arrival_time = 7,
           resolution_time = 8, success = True\<rparr>],
      Success_rate, Calls_in_timeframe 0 5]"

section \<open>Insertion: lemmas\<close>

lemma add_call_log_record:
  "add_call_log self (call_id call) (call_time call) (dispatch_time call)
     (arrival_time call) (resolution_time call) (success call) =
   (if in_logical_order call then (Inr (), self\<lparr>call_logs := call_logs self @ [call]\<rparr>)
    else (Inl (ValueError ''Timestamps are not in logical order.''), self))"
  by (simp add: add_call_log_def in_logical_order_def)

lemma add_multiple_call_logs_takeWhile:
  "add_multiple_call_logs self calls =
     (if list_all in_logical_order calls then Inr ()
      else Inl (ValueError ''Timestamps are not in logical order.''),
      self\<lparr>call_logs := call_logs self @ takeWhile in_logical_order calls\<rparr>)"
proof (induction calls arbitrary: self)
  case Nil
  show ?case by simp
next
  case (Cons call calls)
  show ?case
  proof (cases "in_logical_order call")
    case True
    then show ?thesis
      by (simp add: add_call_log_record Cons.IH)
  next
    case False
    then show ?thesis
      by (simp add: add_call_log_record)
  qed
qed

lemma add_call_log_preserves:
  assumes "list_all in_logical_order (call_logs self)"
  shows "list_all in_logical_order (call_logs (snd (add_call_log self i c d a r s)))"
  using assms by (simp add: add_call_log_def in_logical_order_def)

lemma add_multiple_call_logs_preserves:
  assumes "list_all in_logical_order (call_logs self)"
  shows "list_all in_logical_order (call_logs (snd (add_multiple_call_logs self calls)))"
proof -
  have "list_all in_logical_order (takeWhile in_logical_order calls)"
    by (auto simp: list_all_iff dest: set_takeWhileD)
  with assms show ?thesis
    by (simp add: add_multiple_call_logs_takeWhile)
qed

lemma queries_keep_state:
  "snd (average_response_time self) = self"
  "snd (average_resolution_time self) = self"
  "snd (success_rate self) = self"
  "snd (calls_in_timeframe self start_time end_time) = self"
  by (simp_all add: average_response_time_def average_resolution_time_def success_rate_def
      calls_in_timeframe_def Let_def split: sum.splits)

lemma apply_operation_preserves:
  assumes "list_all in_logical_order (call_logs self)"
  shows "list_all in_logical_order (call_logs (apply_operation self operation))"
  using assms
  by (cases operation)
    (simp_all add: add_call_log_preserves add_multiple_call_logs_preserves queries_keep_state)

lemma foldl_apply_operation_preserves:
  assumes "list_all in_logical_order (call_logs self)"
  shows "list_all in_logical_order (call_logs (foldl apply_operation self ops))"
  using assms
  by (induction ops arbitrary: self) (simp_all add: apply_operation_preserves)

section \<open>Averages and time frames: lemmas\<close>

lemma all_up_to_Suc:
  "(\<forall>k. 0 < k \<and> k \<le> Suc n \<longrightarrow> Q k) \<longleftrightarrow> Q 1 \<and> (\<forall>j. 0 < j \<and> j \<le> n \<longrightarrow> Q (Suc j))"
proof (intro iffI conjI allI impI)
  fix k
  assume h: "Q 1 \<and> (\<forall>j. 0 < j \<and> j \<le> n \<longrightarrow> Q (Suc j))" and k: "0 < k \<and> k \<le> Suc n"
  then obtain j where j: "k = Suc j"
    by (cases k) simp_all
  show "Q k"
  proof (cases "j = 0")
    case True
    with h j show ?thesis by simp
  next
    case False
    with h j k show ?thesis by simp
  qed
qed simp_all

lemma response_time_loop_totals:
  "response_time_loop calls acc =
     (if (\<forall>call \<in> set calls. timedelta_in_range (arrival_time call - call_time call))
         \<and> (\<forall>k. 0 < k \<and> k \<le> length calls \<longrightarrow>
               timedelta_in_range
                 (acc + (\<Sum>call\<leftarrow>take k calls. arrival_time call - call_time call)))
      then Inr (acc + (\<Sum>call\<leftarrow>calls. arrival_time call - call_time call))
      else Inl OverflowError)"
proof (induction calls arbitrary: acc)
  case Nil
  show ?case by simp
next
  case (Cons call calls)
  define d where "d = arrival_time call - call_time call"
  have step: "response_time_loop (call # calls) acc =
      (if timedelta_in_range d \<and> timedelta_in_range (acc + d)
       then response_time_loop calls (acc + d) else Inl OverflowError)"
    by (simp add: datetime_sub_def timedelta_add_def new_timedelta_def d_def)
  have shift: "(\<forall>k. 0 < k \<and> k \<le> length (call # calls) \<longrightarrow>
               timedelta_in_range
                 (acc + (\<Sum>c\<leftarrow>take k (call # calls). arrival_time c - call_time c)))
     \<longleftrightarrow> timedelta_in_range (acc + d)
        \<and> (\<forall>j. 0 < j \<and> j \<le> length calls \<longrightarrow>
               timedelta_in_range
                 (acc + d + (\<Sum>c\<leftarrow>take j calls. arrival_time c - call_time c)))"
    unfolding length_Cons all_up_to_Suc
    by (simp add: d_def add.assoc)
  show ?case
    unfolding step Cons.IH shift
    by (auto simp: d_def add.assoc)
qed

lemma response_time_loop_durations:
  "response_time_loop calls 0 =
     (if durations_in_range (map (\<lambda>call. arrival_time call - call_time call) calls)
      then Inr (\<Sum>call\<leftarrow>calls. arrival_time call - call_time call)
      else Inl OverflowError)"
proof -
  have zero: "timedelta_in_range 0"
    by (simp add: timedelta_in_range_def)
  have "(\<forall>k. 0 < k \<and> k \<le> length calls \<longrightarrow>
               timedelta_in_range (\<Sum>call\<leftarrow>take k calls. arrival_time call - call_time call))
     \<longleftrightarrow> (\<forall>k < Suc (length calls).
               timedelta_in_range (\<Sum>call\<leftarrow>take k calls. arrival_time call - call_time call))"
    using zero by (metis less_Suc_eq_le neq0_conv take_0 list.map(1) sum_list.Nil)
  then show ?thesis
    unfolding response_time_loop_totals durations_in_range_def
    by (simp add: list_all_iff take_map all_set_conv_all_nth del: upt_Suc)
qed

lemma durations_in_range_total:
  assumes "durations_in_range ds"
  shows "timedelta_in_range (sum_list ds)"
proof -
  have "length ds \<in> set [0..<Suc (length ds)]"
    by simp
  with assms have "timedelta_in_range (sum_list (take (length ds) ds))"
    unfolding durations_in_range_def list_all_iff by blast
  then show ?thesis by simp
qed

lemma divide_and_round_cases:
  assumes "0 < b"
  shows "divide_and_round a b =
     (if b < 2 * (a mod b) \<or> (2 * (a mod b) = b \<and> odd (a div b)) then a div b + 1
      else a div b)"
  using assms by (simp add: divide_and_round_def Let_def odd_iff_mod_2_eq_one)

lemma divide_and_round_nearest:
  assumes "0 < b"
  shows "2 * \<bar>divide_and_round a b * b - a\<bar> \<le> b"
proof -
  define q where "q = a div b"
  define r where "r = a mod b"
  have r: "0 \<le> r" "r < b"
    using assms by (simp_all add: r_def)
  have a: "a = q * b + r"
    by (simp add: q_def r_def)
  have down: "\<bar>q * b - a\<bar> = r"
    using r a by simp
  have "(q + 1) * b - a = b - r"
    using a by (simp add: algebra_simps)
  then have up: "\<bar>(q + 1) * b - a\<bar> = b - r"
    using r by simp
  show ?thesis
    unfolding divide_and_round_cases [OF assms] q_def [symmetric] r_def [symmetric]
    using down up r by (simp split: if_splits)
qed

lemma divide_and_round_exact:
  assumes "0 < b" "b dvd a"
  shows "divide_and_round a b * b = a"
  using assms by (auto simp: divide_and_round_def Let_def)

lemma divide_and_round_between:
  assumes "0 < b"
  shows "(0 \<le> a \<longrightarrow> 0 \<le> divide_and_round a b \<and> divide_and_round a b \<le> a)
       \<and> (a \<le> 0 \<longrightarrow> a \<le> divide_and_round a b \<and> divide_and_round a b \<le> 0)"
proof -
  define q where "q = a div b"
  define r where "r = a mod b"
  have r: "0 \<le> r" "r < b"
    using assms by (simp_all add: r_def)
  have a: "a = q * b + r"
    by (simp add: q_def r_def)
  have pos: "0 \<le> q \<and> q \<le> a \<and> (1 \<le> r \<longrightarrow> q + 1 \<le> a)" if "0 \<le> a"
  proof -
    have q0: "0 \<le> q"
      using that assms by (simp add: q_def pos_imp_zdiv_nonneg_iff)
    then have "q * 1 \<le> q * b"
      using assms by (intro mult_left_mono) simp_all
    with a r q0 show ?thesis by simp
  qed
  have neg: "a \<le> q \<and> q \<le> 0 \<and> (a < 0 \<longrightarrow> q + 1 \<le> 0)" if "a \<le> 0"
  proof (cases "a = 0")
    case True
    then show ?thesis by (simp add: q_def)
  next
    case False
    with that have "a < 0" by simp
    then have q: "q + 1 \<le> 0"
      using assms by (simp add: q_def div_neg_pos_less0 add1_zle_eq)
    then have "(q + 1) * (b - 1) \<le> 0"
      using assms by (intro mult_nonpos_nonneg) simp_all
    then have "q * b + (b - 1) \<le> q"
      by (simp add: algebra_simps)
    with a r q show ?thesis by simp
  qed
  have zero: "r = 0" if "a = 0"
    using that by (simp add: r_def)
  show ?thesis
    unfolding divide_and_round_cases [OF assms] q_def [symmetric] r_def [symmetric]
    using pos neg zero r by (auto split: if_splits)
qed

lemma divide_and_round_in_range:
  assumes "0 < b" "timedelta_in_range a"
  shows "timedelta_in_range (divide_and_round a b)"
  using divide_and_round_between [OF assms(1), of a] assms(2)
  by (cases "0 \<le> a") (auto simp: timedelta_in_range_def)

lemma long_call_duration:
  "arrival_time long_call - call_time long_call = 315537897540000000"
  by (simp add: long_call_def mk_datetime_def minutes_def ymd2ord_def days_before_year_def
      days_before_month_def DAYS_BEFORE_MONTH_def is_leap_def)

lemma overflow_store_durations:
  "\<not> durations_in_range
      (map (\<lambda>call. arrival_time call - call_time call) (call_logs overflow_store))"
proof
  assume "durations_in_range
      (map (\<lambda>call. arrival_time call - call_time call) (call_logs overflow_store))"
  then have "timedelta_in_range
      (sum_list (map (\<lambda>call. arrival_time call - call_time call) (call_logs overflow_store)))"
    by (rule durations_in_range_total)
  then show False
    by (simp add: overflow_store_def long_call_duration sum_list_replicate
        timedelta_in_range_def)
qed

lemma overflow_store_raises:
  "average_response_time overflow_store = (Inl OverflowError, overflow_store)"
proof -
  have "call_logs overflow_store \<noteq> []"
    by (simp add: overflow_store_def)
  then show ?thesis
    using overflow_store_durations
    by (simp add: average_response_time_def response_time_loop_durations)
qed

lemma overflow_store_inserted:
  "add_multiple_call_logs init (replicate 274 long_call) = (Inr (), overflow_store)"
proof -
  have "in_logical_order long_call"
    by (simp add: in_logical_order_def long_call_def mk_datetime_def minutes_def ymd2ord_def
        days_before_year_def days_before_month_def DAYS_BEFORE_MONTH_def is_leap_def)
  then have "list_all in_logical_order (replicate 274 long_call)"
    "takeWhile in_logical_order (replicate 274 long_call) = replicate 274 long_call"
    by (simp_all add: list_all_iff)
  then show ?thesis
    by (simp add: add_multiple_call_logs_takeWhile init_def overflow_store_def)
qed

lemma filtered_calls_filter:
  "filtered_calls start_time end_time calls =
     filter (\<lambda>call. start_time \<le> call_time call \<and> call_time call \<le> end_time) calls"
  by (induction calls) simp_all

lemma mk_datetime_diff:
  "mk_datetime y m d h' mi' - mk_datetime y m d h mi = minutes ((h' - h) * 60 + (mi' - mi))"
  by (simp add: mk_datetime_def minutes_def algebra_simps)

section \<open>Rounding to binary64: lemmas\<close>

lemma round_half_even_error: "\<bar>of_int (round_half_even x) - x\<bar> \<le> 1 / 2"
proof -
  define n where "n = \<lfloor>x\<rfloor>"
  define d where "d = x - of_int n"
  have d: "0 \<le> d" "d < 1"
    unfolding d_def n_def by linarith+
  have x: "x = of_int n + d"
    by (simp add: d_def)
  show ?thesis
    unfolding round_half_even_def n_def [symmetric] Let_def d_def [symmetric]
    using d by (auto simp: x)
qed

lemma round_half_even_le:
  assumes "x \<le> of_int m"
  shows "round_half_even x \<le> m"
proof -
  have fl: "\<lfloor>x\<rfloor> \<le> m"
    using assms by (simp add: floor_le_iff)
  show ?thesis
  proof (cases "x = of_int \<lfloor>x\<rfloor>")
    case True
    then have "x - of_int \<lfloor>x\<rfloor> = 0" by simp
    then show ?thesis
      using fl by (simp add: round_half_even_def Let_def)
  next
    case False
    then have "of_int \<lfloor>x\<rfloor> < x"
      using of_int_floor_le [of x] by linarith
    with assms have "\<lfloor>x\<rfloor> < m"
      by (metis less_le_trans of_int_less_iff)
    then show ?thesis
      by (simp add: round_half_even_def Let_def)
  qed
qed

lemma round_half_even_ge:
  assumes "of_int m \<le> x"
  shows "m \<le> round_half_even x"
proof -
  have "m \<le> \<lfloor>x\<rfloor>"
    using assms by (simp add: le_floor_iff)
  then show ?thesis
    by (simp add: round_half_even_def Let_def)
qed

lemma floor_log2_le:
  assumes "0 < x"
  shows "2 powi floor_log2 x \<le> x"
proof -
  obtain p q where pq: "quotient_of x = (p, q)"
    by fastforce
  have q: "0 < q"
    using pq by (rule quotient_of_denom_pos)
  have x: "x = of_int p / of_int q"
    using pq by (rule quotient_of_div)
  have p: "0 < p"
    using assms q by (simp add: x zero_less_divide_iff)
  have bp: "1 \<le> bitlen p"
    using p by (simp add: bitlen_alt_def)
  have bq: "0 \<le> bitlen q"
    by (rule bitlen_nonneg)
  have "(2::int) ^ nat (bitlen p - 1) \<le> p"
    using bitlen_bounds [OF p] by simp
  then have "(of_int ((2::int) ^ nat (bitlen p - 1)) :: rat) \<le> of_int p"
    by (simp only: of_int_le_iff)
  then have lo: "(2::rat) powi (bitlen p - 1) \<le> of_int p"
    using bp by (simp add: power_int_nonneg_exp)
  have "q < (2::int) ^ nat (bitlen q)"
    using bitlen_bounds [OF q] by simp
  then have "(of_int q :: rat) < of_int ((2::int) ^ nat (bitlen q))"
    by (simp only: of_int_less_iff)
  then have hi: "of_int q < (2::rat) powi (bitlen q)"
    using bq by (simp add: power_int_nonneg_exp)
  have "(2::rat) powi (bitlen p - bitlen q - 1) = 2 powi (bitlen p - 1) / 2 powi (bitlen q)"
    by (simp add: power_int_diff)
  also have "\<dots> \<le> of_int p / of_int q"
    using lo hi q p by (intro frac_le) simp_all
  finally have "(2::rat) powi (bitlen p - bitlen q - 1) \<le> x"
    by (simp add: x)
  then show ?thesis
    by (simp add: floor_log2_def pq Let_def)
qed

lemma ulp_pos: "0 < ulp x"
  by (simp add: ulp_def)

lemma ulp_exponent:
  assumes "0 < x" "x < 2 powi (E + 1)" "- 1022 \<le> E"
  shows "\<exists>j\<le>E - 52. ulp x = 2 powi j"
proof -
  have "(2::rat) powi floor_log2 x < 2 powi (E + 1)"
    using floor_log2_le [OF assms(1)] assms(2) by simp
  then have "floor_log2 x < E + 1"
    by (metis not_less power_int_increasing one_le_numeral)
  then have "max (floor_log2 x) (- 1022) - 52 \<le> E - 52"
    using assms(3) by simp
  moreover have "ulp x = 2 powi (max (floor_log2 x) (- 1022) - 52)"
    using assms(1) by (simp add: ulp_def)
  ultimately show ?thesis
    by blast
qed

lemma ulp_le:
  assumes "0 < x" "x < 2 powi (E + 1)" "- 1022 \<le> E"
  shows "ulp x \<le> 2 powi (E - 52)"
proof -
  obtain j where "j \<le> E - 52" "ulp x = 2 powi j"
    using ulp_exponent [OF assms] by blast
  then show ?thesis
    by (simp add: power_int_increasing)
qed

lemma ulp_divides:
  assumes "0 < x" "x < 2 powi (E + 1)" "- 1022 \<le> E" "E - 52 \<le> int s"
  shows "\<exists>m::int. (of_int c :: rat) * 2 ^ s = of_int m * ulp x"
proof -
  obtain j where j: "j \<le> E - 52" "ulp x = 2 powi j"
    using ulp_exponent [OF assms(1-3)] by blast
  then have js: "0 \<le> int s - j"
    using assms(4) by simp
  have "(2::rat) ^ s = 2 powi (int s)"
    by simp
  also have "\<dots> = 2 powi (int s - j) * 2 powi j"
    by (simp flip: power_int_add)
  also have "\<dots> = of_int (2 ^ nat (int s - j)) * 2 powi j"
    using js by (simp add: power_int_nonneg_exp)
  finally have "(of_int c :: rat) * 2 ^ s = of_int (c * 2 ^ nat (int s - j)) * ulp x"
    by (simp add: j)
  then show ?thesis ..
qed

lemma float_round_error: "\<bar>float_round x - x\<bar> \<le> ulp x / 2"
proof (cases "x = 0")
  case True
  then show ?thesis
    using ulp_pos [of x] by (simp add: float_round_def)
next
  case False
  have u: "0 < ulp x" by (rule ulp_pos)
  have "float_round x - x = (of_int (round_half_even (x / ulp x)) - x / ulp x) * ulp x"
    using False u by (simp add: float_round_def algebra_simps)
  then have "\<bar>float_round x - x\<bar> = \<bar>of_int (round_half_even (x / ulp x)) - x / ulp x\<bar> * ulp x"
    using u by (simp add: abs_mult)
  also have "\<dots> \<le> 1 / 2 * ulp x"
    using u round_half_even_error [of "x / ulp x"] by (intro mult_right_mono) simp_all
  finally show ?thesis by simp
qed

lemma float_round_le:
  assumes "x \<le> of_int m * ulp x"
  shows "float_round x \<le> of_int m * ulp x"
proof (cases "x = 0")
  case True
  then show ?thesis
    using assms by (simp add: float_round_def)
next
  case False
  have u: "0 < ulp x" by (rule ulp_pos)
  then have "x / ulp x \<le> of_int m"
    using assms by (simp add: pos_divide_le_eq)
  then have "round_half_even (x / ulp x) \<le> m"
    by (rule round_half_even_le)
  then have "(of_int (round_half_even (x / ulp x)) :: rat) \<le> of_int m"
    by (simp only: of_int_le_iff)
  then show ?thesis
    using False u by (simp add: float_round_def)
qed

lemma float_round_ge:
  assumes "of_int m * ulp x \<le> x"
  shows "of_int m * ulp x \<le> float_round x"
proof (cases "x = 0")
  case True
  then show ?thesis
    using assms by (simp add: float_round_def)
next
  case False
  have u: "0 < ulp x" by (rule ulp_pos)
  then have "of_int m \<le> x / ulp x"
    using assms by (simp add: pos_le_divide_eq)
  then have "m \<le> round_half_even (x / ulp x)"
    by (rule round_half_even_ge)
  then have "(of_int m :: rat) \<le> of_int (round_half_even (x / ulp x))"
    by (simp only: of_int_le_iff)
  then show ?thesis
    using False u by (simp add: float_round_def)
qed

lemma float_round_nonneg:
  assumes "0 \<le> x"
  shows "0 \<le> float_round x"
  using float_round_ge [of 0 x] assms by simp

lemma float_round_below:
  assumes "0 < x" "x \<le> of_int c * 2 ^ s" "of_int c * 2 ^ s < (2::rat) powi (E + 1)"
    and "- 1022 \<le> E" "E - 52 \<le> int s"
  shows "float_round x \<le> of_int c * 2 ^ s"
proof -
  have "x < 2 powi (E + 1)"
    using assms(2,3) by simp
  then obtain m :: int where "(of_int c :: rat) * 2 ^ s = of_int m * ulp x"
    using ulp_divides [OF assms(1) _ assms(4,5)] by blast
  then show ?thesis
    using float_round_le [of x m] assms(2) by simp
qed

lemma float_round_above:
  assumes "0 < x" "of_int c * 2 ^ s \<le> x" "x < (2::rat) powi (E + 1)"
    and "- 1022 \<le> E" "E - 52 \<le> int s"
  shows "of_int c * 2 ^ s \<le> float_round x"
proof -
  obtain m :: int where "(of_int c :: rat) * 2 ^ s = of_int m * ulp x"
    using ulp_divides [OF assms(1,3,4,5)] by blast
  then show ?thesis
    using float_round_ge [of m x] assms(2) by simp
qed

lemma float_round_one: "float_round 1 = 1"
proof -
  have "float_round 1 \<le> of_int 1 * 2 ^ 0"
    by (rule float_round_below [where E = 0]) simp_all
  moreover have "of_int 1 * 2 ^ 0 \<le> float_round 1"
    by (rule float_round_above [where E = 0]) simp_all
  ultimately show ?thesis by simp
qed

lemma float_round_ten_19: "float_round 10000000000000000000 = 10000000000000000000"
proof -
  have "float_round 10000000000000000000 \<le> of_int 19073486328125 * 2 ^ 19"
    by (rule float_round_below [where E = 63]) simp_all
  moreover have "of_int 19073486328125 * 2 ^ 19 \<le> float_round 10000000000000000000"
    by (rule float_round_above [where E = 63]) simp_all
  ultimately show ?thesis by simp
qed

lemma successful_calls_loop_count:
  "successful_calls_loop calls start = start + int (length (filter success calls))"
  by (induction calls arbitrary: start) simp_all

lemma success_rate_value:
  assumes "call_logs self \<noteq> []"
  shows "success_rate self =
     (Inr (float_round (float_round (of_int (int (length (filter success (call_logs self))))
                                      / of_int (int (length (call_logs self))))
                        * 10000000000000000000)), self)"
  using assms
  by (simp add: success_rate_def int_truediv_def float_mul_int_def successful_calls_loop_count
      float_round_ten_19)

lemma float_round_fraction:
  assumes "0 \<le> x" "x \<le> 1"
  shows "0 \<le> float_round x" and "float_round x \<le> 1"
    and "\<bar>float_round x - x\<bar> \<le> 1 / 2 ^ 54"
proof -
  show "0 \<le> float_round x"
    using assms(1) by (rule float_round_nonneg)
  show "float_round x \<le> 1"
  proof (cases "x = 0")
    case True
    then show ?thesis by (simp add: float_round_def)
  next
    case False
    with assms have "float_round x \<le> of_int 1 * 2 ^ 0"
      by (intro float_round_below [where E = 0]) simp_all
    then show ?thesis by simp
  qed
  show "\<bar>float_round x - x\<bar> \<le> 1 / 2 ^ 54"
  proof (cases "x = 0 \<or> x = 1")
    case True
    then show ?thesis
    proof
      assume "x = 0"
      then show ?thesis by (simp add: float_round_def)
    next
      assume "x = 1"
      then show ?thesis by (simp add: float_round_one)
    qed
  next
    case False
    with assms have x: "0 < x" "x < 2 powi (- 1 + 1)"
      by simp_all
    have "ulp x \<le> 2 powi (- 1 - 52)"
      using x by (rule ulp_le) simp
    then have "ulp x / 2 \<le> 1 / 2 ^ 54"
      by (simp add: power_int_minus_divide)
    with float_round_error [of x] show ?thesis
      by linarith
  qed
qed

lemma float_round_scaled:
  assumes "0 \<le> y" "y \<le> 10000000000000000000"
  shows "0 \<le> float_round y" and "float_round y \<le> 10000000000000000000"
    and "\<bar>float_round y - y\<bar> \<le> 1024"
proof -
  show "0 \<le> float_round y"
    using assms(1) by (rule float_round_nonneg)
  show "float_round y \<le> 10000000000000000000"
  proof (cases "y = 0")
    case True
    then show ?thesis by (simp add: float_round_def)
  next
    case False
    with assms have "float_round y \<le> of_int 19073486328125 * 2 ^ 19"
      by (intro float_round_below [where E = 63]) simp_all
    then show ?thesis by simp
  qed
  show "\<bar>float_round y - y\<bar> \<le> 1024"
  proof (cases "y = 0")
    case True
    then show ?thesis by (simp add: float_round_def)
  next
    case False
    with assms have y: "0 < y" "y < 2 powi (63 + 1)"
      by simp_all
    have "ulp y \<le> 2 powi (63 - 52)"
      using y by (rule ulp_le) simp
    then have "ulp y / 2 \<le> 1024"
      by simp
    with float_round_error [of y] show ?thesis
      by linarith
  qed
qed

lemma rate_bounds:
  assumes "0 \<le> x" "x \<le> 1"
  shows "0 \<le> float_round (float_round x * 10000000000000000000)"
    and "float_round (float_round x * 10000000000000000000) \<le> 10000000000000000000"
    and "\<bar>float_round (float_round x * 10000000000000000000) - 10000000000000000000 * x\<bar>
           \<le> 1580"
proof -
  define f where "f = float_round x"
  have f: "0 \<le> f" "f \<le> 1" "\<bar>f - x\<bar> \<le> 1 / 2 ^ 54"
    unfolding f_def using assms by (rule float_round_fraction)+
  define y where "y = f * 10000000000000000000"
  have y: "0 \<le> y" "y \<le> 10000000000000000000"
    using f by (simp_all add: y_def)
  have r: "0 \<le> float_round y" "float_round y \<le> 10000000000000000000"
    "\<bar>float_round y - y\<bar> \<le> 1024"
    using y by (rule float_round_scaled)+
  have "y - 10000000000000000000 * x = 10000000000000000000 * (f - x)"
    by (simp add: y_def algebra_simps)
  then have "\<bar>y - 10000000000000000000 * x\<bar> = \<bar>10000000000000000000 * (f - x)\<bar>"
    by (simp only:)
  also have "\<dots> = 10000000000000000000 * \<bar>f - x\<bar>"
    by (simp only: abs_mult abs_numeral)
  also have "\<dots> \<le> 10000000000000000000 * (1 / 2 ^ 54)"
    using f(3) by (intro mult_left_mono) simp_all
  finally have "\<bar>y - 10000000000000000000 * x\<bar> \<le> 556"
    by simp
  with r(3) have "\<bar>float_round y - 10000000000000000000 * x\<bar> \<le> 1580"
    by linarith
  with r show "0 \<le> float_round (float_round x * 10000000000000000000)"
    and "float_round (float_round x * 10000000000000000000) \<le> 10000000000000000000"
    and "\<bar>float_round (float_round x * 10000000000000000000) - 10000000000000000000 * x\<bar>
           \<le> 1580"
    by (simp_all add: y_def f_def)
qed

lemma two_thirds_rate:
  "float_round (float_round (2 / 3) * 10000000000000000000) = 6666666666666665984"
  by code_simp

lemma ymd2ord_example: "ymd2ord 2023 10 1 = 738794"
  by (simp add: ymd2ord_def days_before_year_def days_before_month_def DAYS_BEFORE_MONTH_def
      is_leap_def)

section \<open>The claims\<close>

text \<open>
  Claim C1. \<open>add_call_log\<close> checks that the four timestamps are in the order
  \<open>call_time \<le> dispatch_time \<le> arrival_time \<le> resolution_time\<close>. If they are not, it
  raises the error of invalid ordering, which in the code is the \<open>ValueError\<close> with the
  message \<open>Timestamps are not in logical order.\<close>, and the store is what it was. If
  they are, it succeeds and the store is the old one with exactly one record more, at the
  end, made of the six arguments.
\<close>

theorem add_call_log_validates:
  "(\<not> (c \<le> d \<and> d \<le> a \<and> a \<le> r) \<longrightarrow>
      add_call_log self i c d a r s =
        (Inl (ValueError ''Timestamps are not in logical order.''), self))
   \<and> (c \<le> d \<and> d \<le> a \<and> a \<le> r \<longrightarrow>
      add_call_log self i c d a r s =
        (Inr (), self\<lparr>call_logs := call_logs self @
           [\<lparr>call_id = i, call_time = c, dispatch_time = d, arrival_time = a,
             resolution_time = r, success = s\<rparr>]\<rparr>))"
  by (simp add: add_call_log_def)

theorem add_call_log_validates_witness:
  "add_call_log init 7 40 30 20 10 True =
     (Inl (ValueError ''Timestamps are not in logical order.''), init)
   \<and> add_call_log init 7 10 20 30 40 True =
     (Inr (), \<lparr>call_logs = [\<lparr>call_id = 7, call_time = 10, dispatch_time = 20,
        arrival_time = 30, resolution_time = 40, success = True\<rparr>]\<rparr>)"
  using add_call_log_validates [of 40 30 20 10 init 7 True]
    add_call_log_validates [of 10 20 30 40 init 7 True]
  by (simp add: init_def)

text \<open>
  Claim C7. \<open>add_multiple_call_logs\<close> inserts the records of its list in order. If the
  first record that is not in logical order is at index \<open>k\<close> (counting from \<open>0\<close>), the
  call raises the error of \<open>add_call_log\<close> and the store holds, after the records it had,
  the \<open>k\<close> records before that one, in order, and nothing from index \<open>k\<close> on. If every
  record is in logical order the call succeeds and all of them are appended.
\<close>

theorem add_multiple_call_logs_keeps_prefix:
  "(k < length calls \<and> \<not> in_logical_order (calls ! k)
      \<and> (\<forall>j<k. in_logical_order (calls ! j)) \<longrightarrow>
      add_multiple_call_logs self calls =
        (Inl (ValueError ''Timestamps are not in logical order.''),
         self\<lparr>call_logs := call_logs self @ take k calls\<rparr>))
   \<and> ((\<forall>call \<in> set calls. in_logical_order call) \<longrightarrow>
      add_multiple_call_logs self calls =
        (Inr (), self\<lparr>call_logs := call_logs self @ calls\<rparr>))"
proof (intro conjI impI)
  assume k: "k < length calls \<and> \<not> in_logical_order (calls ! k)
      \<and> (\<forall>j<k. in_logical_order (calls ! j))"
  then have "takeWhile in_logical_order calls = take k calls"
    by (intro takeWhile_eq_take_P_nth) auto
  moreover from k have "\<not> list_all in_logical_order calls"
    by (auto simp: list_all_length)
  ultimately show "add_multiple_call_logs self calls =
        (Inl (ValueError ''Timestamps are not in logical order.''),
         self\<lparr>call_logs := call_logs self @ take k calls\<rparr>)"
    by (simp add: add_multiple_call_logs_takeWhile)
next
  assume "\<forall>call \<in> set calls. in_logical_order call"
  then have "list_all in_logical_order calls" "takeWhile in_logical_order calls = calls"
    by (simp_all add: list_all_iff)
  then show "add_multiple_call_logs self calls =
        (Inr (), self\<lparr>call_logs := call_logs self @ calls\<rparr>)"
    by (simp add: add_multiple_call_logs_takeWhile)
qed

theorem add_multiple_call_logs_keeps_prefix_witness:
  "add_multiple_call_logs init [example_call_1, backwards_call, example_call_3] =
     (Inl (ValueError ''Timestamps are not in logical order.''),
      \<lparr>call_logs = [example_call_1]\<rparr>)
   \<and> add_multiple_call_logs init [example_call_1, example_call_2, example_call_3] =
     (Inr (), example_store)"
proof -
  have ok: "in_logical_order example_call_1" "in_logical_order example_call_2"
    "in_logical_order example_call_3"
    by (simp_all add: in_logical_order_def example_call_1_def example_call_2_def
        example_call_3_def mk_datetime_def minutes_def)
  have bad: "\<not> in_logical_order backwards_call"
    by (simp add: in_logical_order_def backwards_call_def)
  have one: "\<forall>j<1. in_logical_order ([example_call_1, backwards_call, example_call_3] ! j)"
    using ok by simp
  show ?thesis
    using add_multiple_call_logs_keeps_prefix
      [of 1 "[example_call_1, backwards_call, example_call_3]" init]
      add_multiple_call_logs_keeps_prefix
      [of 0 "[example_call_1, example_call_2, example_call_3]" init]
      ok bad one
    by (simp add: init_def example_store_def)
qed

text \<open>
  Claim C6. Starting from the empty store, after any sequence of calls of
  \<open>add_call_log\<close>, \<open>add_multiple_call_logs\<close> and the four queries, whether the calls
  succeed or raise, every record in the store has its four timestamps in logical order.
\<close>

theorem stored_records_in_logical_order:
  "\<forall>call \<in> set (call_logs (run ops)).
     call_time call \<le> dispatch_time call \<and> dispatch_time call \<le> arrival_time call
       \<and> arrival_time call \<le> resolution_time call"
proof -
  have "list_all in_logical_order (call_logs init)"
    by (simp add: init_def)
  then have "list_all in_logical_order (call_logs (run ops))"
    unfolding run_def by (rule foldl_apply_operation_preserves)
  then show ?thesis
    by (simp add: list_all_iff in_logical_order_def)
qed

theorem stored_records_in_logical_order_witness:
  "call_logs (run example_ops) =
     [\<lparr>call_id = 1, call_time = 10, dispatch_time = 20, arrival_time = 30,
        resolution_time = 40, success = True\<rparr>,
      \<lparr>call_id = 3, call_time = 1, dispatch_time = 2, arrival_time = 3,
        resolution_time = 4, success = False\<rparr>]
   \<and> list_all (\<lambda>call. call_time call \<le> dispatch_time call
         \<and> dispatch_time call \<le> arrival_time call
         \<and> arrival_time call \<le> resolution_time call) (call_logs (run example_ops))"
  using stored_records_in_logical_order [of example_ops]
  by (simp add: run_def example_ops_def backwards_call_def init_def add_call_log_def
      queries_keep_state)

text \<open>
  Claim C3. On a store with \<open>n > 0\<close> records, \<open>average_response_time\<close> adds up the
  differences \<open>arrival_time - call_time\<close>, which are exact. When each of these
  durations and each running total of them is within the bounds of a \<open>timedelta\<close>, it
  returns their sum divided by \<open>n\<close> at the precision of a duration: the quotient is
  rounded to a whole number of microseconds, so it is within half a microsecond of the
  exact mean, and it is the exact mean whenever that is a whole number of microseconds.
  Otherwise it raises \<open>OverflowError\<close>, as on the store of 274 calls that last from
  the year 1 to the year 9999, each of which \<open>add_call_log\<close> accepts.
\<close>

theorem average_response_time_mean:
  assumes "call_logs self \<noteq> []"
    and "n = int (length (call_logs self))"
    and "durations = map (\<lambda>call. arrival_time call - call_time call) (call_logs self)"
    and "duration_sum = (\<Sum>call\<leftarrow>call_logs self. arrival_time call - call_time call)"
  shows "(durations_in_range durations \<longrightarrow>
           (\<exists>average. average_response_time self = (Inr average, self)
             \<and> average = divide_and_round duration_sum n
             \<and> 2 * \<bar>average * n - duration_sum\<bar> \<le> n
             \<and> (n dvd duration_sum \<longrightarrow> average * n = duration_sum)))
       \<and> (\<not> durations_in_range durations \<longrightarrow>
           average_response_time self = (Inl OverflowError, self))"
proof (intro conjI impI)
  from assms have n: "0 < n" by simp
  assume ok: "durations_in_range durations"
  then have "timedelta_in_range duration_sum"
    unfolding assms(3,4) by (rule durations_in_range_total)
  then have "timedelta_in_range (divide_and_round duration_sum n)"
    using n by (intro divide_and_round_in_range)
  then have "average_response_time self = (Inr (divide_and_round duration_sum n), self)"
    using assms n ok
    by (simp add: average_response_time_def timedelta_truediv_def new_timedelta_def
        response_time_loop_durations)
  then show "\<exists>average. average_response_time self = (Inr average, self)
             \<and> average = divide_and_round duration_sum n
             \<and> 2 * \<bar>average * n - duration_sum\<bar> \<le> n
             \<and> (n dvd duration_sum \<longrightarrow> average * n = duration_sum)"
    using divide_and_round_nearest [OF n, of duration_sum]
      divide_and_round_exact [OF n, of duration_sum]
    by simp
next
  assume "\<not> durations_in_range durations"
  then show "average_response_time self = (Inl OverflowError, self)"
    using assms by (simp add: average_response_time_def response_time_loop_durations)
qed

theorem average_response_time_mean_witness:
  "average_response_time
     \<lparr>call_logs = [\<lparr>call_id = 1, call_time = 0, dispatch_time = 1, arrival_time = 4,
                     resolution_time = 9, success = True\<rparr>,
                   \<lparr>call_id = 2, call_time = 10, dispatch_time = 11, arrival_time = 13,
                     resolution_time = 20, success = False\<rparr>]\<rparr>
   = (Inr 4,
     \<lparr>call_logs = [\<lparr>call_id = 1, call_time = 0, dispatch_time = 1, arrival_time = 4,
                     resolution_time = 9, success = True\<rparr>,
                   \<lparr>call_id = 2, call_time = 10, dispatch_time = 11, arrival_time = 13,
                     resolution_time = 20, success = False\<rparr>]\<rparr>)
   \<and> average_response_time example_store = (Inr (minutes 5), example_store)
   \<and> average_response_time overflow_store = (Inl OverflowError, overflow_store)"
proof -
  have nonempty: "call_logs example_store \<noteq> []"
    by (simp add: example_store_def)
  have n: "3 = int (length (call_logs example_store))"
    by (simp add: example_store_def)
  have ds: "[minutes 5, minutes 5, minutes 5]
      = map (\<lambda>call. arrival_time call - call_time call) (call_logs example_store)"
    by (simp add: example_store_def example_call_1_def example_call_2_def example_call_3_def
        mk_datetime_diff minutes_def)
  have d: "minutes 15 = (\<Sum>call\<leftarrow>call_logs example_store. arrival_time call - call_time call)"
    by (simp add: example_store_def example_call_1_def example_call_2_def example_call_3_def
        mk_datetime_diff minutes_def)
  have ok: "durations_in_range [minutes 5, minutes 5, minutes 5]"
    by (simp add: durations_in_range_def timedelta_in_range_def minutes_def upt_rec)
  have dvd: "(3::int) dvd minutes 15"
    by (simp add: minutes_def)
  from average_response_time_mean [OF nonempty n ds d, THEN conjunct1, THEN mp, OF ok]
  obtain average where a: "average_response_time example_store = (Inr average, example_store)"
    and e: "3 dvd minutes 15 \<longrightarrow> average * 3 = minutes 15"
    by (elim exE conjE)
  from e dvd have "average = minutes 5"
    by (simp add: minutes_def)
  with a have second: "average_response_time example_store = (Inr (minutes 5), example_store)"
    by (simp only:)
  have ok2: "durations_in_range [4, 3]"
    by (simp add: durations_in_range_def timedelta_in_range_def upt_rec)
  have first: "average_response_time
     \<lparr>call_logs = [\<lparr>call_id = 1, call_time = 0, dispatch_time = 1, arrival_time = 4,
                     resolution_time = 9, success = True\<rparr>,
                   \<lparr>call_id = 2, call_time = 10, dispatch_time = 11, arrival_time = 13,
                     resolution_time = 20, success = False\<rparr>]\<rparr>
   = (Inr 4,
     \<lparr>call_logs = [\<lparr>call_id = 1, call_time = 0, dispatch_time = 1, arrival_time = 4,
                     resolution_time = 9, success = True\<rparr>,
                   \<lparr>call_id = 2, call_time = 10, dispatch_time = 11, arrival_time = 13,
                     resolution_time = 20, success = False\<rparr>]\<rparr>)"
    using average_response_time_mean [of
     "\<lparr>call_logs = [\<lparr>call_id = 1, call_time = 0, dispatch_time = 1, arrival_time = 4,
                     resolution_time = 9, success = True\<rparr>,
                   \<lparr>call_id = 2, call_time = 10, dispatch_time = 11, arrival_time = 13,
                     resolution_time = 20, success = False\<rparr>]\<rparr>" 2 "[4, 3]" 7] ok2
    by (simp add: divide_and_round_def)
  have ne3: "call_logs overflow_store \<noteq> []"
    by (simp add: overflow_store_def)
  have third: "average_response_time overflow_store = (Inl OverflowError, overflow_store)"
    by (rule average_response_time_mean [OF ne3 refl refl refl, THEN conjunct2, THEN mp,
          OF overflow_store_durations])
  from first second third show ?thesis
    by (simp only: simp_thms)
qed

theorem average_response_time_overflow_counterexample:
  "call_logs overflow_store \<noteq> []
   \<and> add_multiple_call_logs init (replicate 274 long_call) = (Inr (), overflow_store)
   \<and> average_response_time overflow_store = (Inl OverflowError, overflow_store)"
  using overflow_store_raises overflow_store_inserted
  by (simp add: overflow_store_def)

text \<open>
  Claim C9. The spec's example: a store with exactly two records, one received at 14:30
  and reached at 14:35, the other received at 9:15 and reached at 9:20. The spec gives
  an average response time of 4.5 minutes. Both response times are 5 minutes, and the
  code returns 5 minutes, on the two first calls of the example of the source as on any
  two such records.
\<close>

theorem two_calls_average_five_minutes:
  assumes "call_time c1 = mk_datetime y1 m1 d1 14 30"
    and "arrival_time c1 = mk_datetime y1 m1 d1 14 35"
    and "call_time c2 = mk_datetime y2 m2 d2 9 15"
    and "arrival_time c2 = mk_datetime y2 m2 d2 9 20"
  shows "fst (average_response_time \<lparr>call_logs = [c1, c2]\<rparr>) = Inr (minutes 5)"
  using assms
  by (simp add: average_response_time_def timedelta_truediv_def datetime_sub_def
      timedelta_add_def new_timedelta_def timedelta_in_range_def
      mk_datetime_diff minutes_def divide_and_round_def)

theorem two_calls_average_five_minutes_witness:
  "fst (average_response_time example_two_calls) = Inr (minutes 5)"
  unfolding example_two_calls_def
  by (rule two_calls_average_five_minutes)
    (simp_all add: example_call_1_def example_call_2_def)

theorem two_calls_average_counterexample:
  "fst (average_response_time example_two_calls) = Inr (seconds 300)
   \<and> fst (average_response_time example_two_calls) \<noteq> Inr (seconds 270)"
  by (simp add: example_two_calls_def example_call_1_def example_call_2_def
      average_response_time_def timedelta_truediv_def datetime_sub_def
      timedelta_add_def new_timedelta_def timedelta_in_range_def
      mk_datetime_diff minutes_def seconds_def divide_and_round_def)

text \<open>
  Claim C4. On a store without records, \<open>average_response_time\<close>,
  \<open>average_resolution_time\<close> and \<open>success_rate\<close> each raise the error of the empty store,
  which in the code is a \<open>ValueError\<close> with a message of its own for each method, and
  \<open>calls_in_timeframe\<close> returns the empty list. \<open>calls_in_timeframe\<close> returns a list on
  every store (\<open>other\<close> below), so it is the one query that never raises.
\<close>

theorem empty_store_errors:
  assumes "call_logs self = []"
  shows "average_response_time self =
           (Inl (ValueError ''No call logs available to calculate average response time.''), self)
     \<and> average_resolution_time self =
           (Inl (ValueError ''No call logs available to calculate average resolution time.''), self)
     \<and> success_rate self =
           (Inl (ValueError ''No call logs available to calculate success rate.''), self)
     \<and> calls_in_timeframe self start_time end_time = (Inr [], self)
     \<and> (\<exists>calls. calls_in_timeframe other start_time end_time = (Inr calls, other))"
  using assms
  by (simp add: average_response_time_def average_resolution_time_def success_rate_def
      calls_in_timeframe_def)

theorem empty_store_errors_witness:
  "average_response_time init =
           (Inl (ValueError ''No call logs available to calculate average response time.''), init)
     \<and> average_resolution_time init =
           (Inl (ValueError ''No call logs available to calculate average resolution time.''), init)
     \<and> success_rate init =
           (Inl (ValueError ''No call logs available to calculate success rate.''), init)
     \<and> calls_in_timeframe init 0 100 = (Inr [], init)"
  using empty_store_errors [of init 0 100 init]
  by (simp add: init_def)

text \<open>
  Claim C5. \<open>calls_in_timeframe\<close> never raises, and returns exactly the records with
  \<open>start_time \<le> call_time \<le> end_time\<close>, both bounds included, in the order of the store:
  the list of the store filtered by that test. The result is empty exactly when no record
  passes the test, as on the empty store.
\<close>

theorem calls_in_timeframe_exact:
  "\<exists>calls. calls_in_timeframe self start_time end_time = (Inr calls, self)
     \<and> calls = filter (\<lambda>call. start_time \<le> call_time call \<and> call_time call \<le> end_time)
                 (call_logs self)
     \<and> subseq calls (call_logs self)
     \<and> (calls = [] \<longleftrightarrow>
          (\<forall>call \<in> set (call_logs self).
             \<not> (start_time \<le> call_time call \<and> call_time call \<le> end_time)))"
  by (simp add: calls_in_timeframe_def filtered_calls_filter filter_empty_conv)

theorem calls_in_timeframe_exact_witness:
  "calls_in_timeframe example_store (mk_datetime 2023 10 2 9 15) (mk_datetime 2023 10 3 20 5)
     = (Inr [example_call_2, example_call_3], example_store)
   \<and> calls_in_timeframe example_store (mk_datetime 2024 10 1 0 0) (mk_datetime 2024 10 2 23 59)
     = (Inr [], example_store)"
proof -
  have t: "ymd2ord 2023 10 1 = 738794" "ymd2ord 2023 10 2 = 738795"
    "ymd2ord 2023 10 3 = 738796" "ymd2ord 2024 10 1 = 739160" "ymd2ord 2024 10 2 = 739161"
    by (simp_all add: ymd2ord_def days_before_year_def days_before_month_def
        DAYS_BEFORE_MONTH_def is_leap_def)
  show ?thesis
    using calls_in_timeframe_exact
      [of example_store "mk_datetime 2023 10 2 9 15" "mk_datetime 2023 10 3 20 5"]
      calls_in_timeframe_exact
      [of example_store "mk_datetime 2024 10 1 0 0" "mk_datetime 2024 10 2 23 59"]
    by (simp add: example_store_def example_call_1_def example_call_2_def example_call_3_def
        mk_datetime_def minutes_def t)
qed

text \<open>
  Claim C10. The four queries leave the store as it is, whether they return or raise.
\<close>

theorem queries_read_only:
  "snd (average_response_time self) = self
   \<and> snd (average_resolution_time self) = self
   \<and> snd (success_rate self) = self
   \<and> snd (calls_in_timeframe self start_time end_time) = self"
  by (simp add: average_response_time_def average_resolution_time_def success_rate_def
      calls_in_timeframe_def Let_def split: sum.splits)

theorem queries_read_only_witness:
  "snd (average_response_time example_store) = example_store
   \<and> snd (average_resolution_time init) = init
   \<and> snd (success_rate example_store) = example_store
   \<and> snd (calls_in_timeframe example_store 0 1) = example_store"
  using queries_read_only [of example_store 0 1] queries_read_only [of init 0 1]
  by simp

text \<open>
  Claim C2. \<open>success_rate\<close> is documented as the percentage of successful calls, which
  is \<open>k / n * 100\<close> for \<open>k\<close> successes among \<open>n\<close> records. The code multiplies the
  fraction by \<open>10 ^ 19\<close>: on a store with one record, a successful one, it returns
  \<open>10 ^ 19\<close> and not \<open>100\<close>.
\<close>

theorem success_rate_single_success:
  "success_rate \<lparr>call_logs = [\<lparr>call_id = 1, call_time = 10, dispatch_time = 20,
       arrival_time = 30, resolution_time = 40, success = True\<rparr>]\<rparr>
     = (Inr 10000000000000000000,
        \<lparr>call_logs = [\<lparr>call_id = 1, call_time = 10, dispatch_time = 20,
       arrival_time = 30, resolution_time = 40, success = True\<rparr>]\<rparr>)
   \<and> (10000000000000000000 :: pyfloat) \<noteq> of_int 1 / of_int 1 * 100"
  by (simp add: success_rate_value float_round_one float_round_ten_19)

text \<open>
  Claim C8. On a store with \<open>n > 0\<close> records of which \<open>k\<close> are successes,
  \<open>success_rate\<close> returns \<open>0\<close> when no record is a success; it returns \<open>10 ^ 19\<close> when
  every record is one, whatever \<open>n\<close> is, and no store gets more; its value is
  \<open>10 ^ 19 * k / n\<close> up to the two roundings of the floating-point division and
  multiplication, which is less than \<open>1580\<close> away on this scale of \<open>10 ^ 19\<close>; and
  a store with the same fraction of successes gets the same rate.
\<close>

theorem success_rate_scale:
  assumes "call_logs self \<noteq> []"
    and "k = int (length (filter success (call_logs self)))"
    and "n = int (length (call_logs self))"
  shows "\<exists>rate. success_rate self = (Inr rate, self)
     \<and> ((\<forall>call \<in> set (call_logs self). \<not> success call) \<longrightarrow> rate = 0)
     \<and> ((\<forall>call \<in> set (call_logs self). success call) \<longrightarrow> rate = 10 ^ 19)
     \<and> 0 \<le> rate \<and> rate \<le> 10 ^ 19
     \<and> \<bar>rate - 10 ^ 19 * (of_int k / of_int n)\<bar> \<le> 1580
     \<and> (call_logs other \<noteq> []
          \<and> int (length (filter success (call_logs other))) * n
              = k * int (length (call_logs other))
          \<longrightarrow> success_rate other = (Inr rate, other))"
proof -
  define x :: rat where "x = of_int k / of_int n"
  define rate where "rate = float_round (float_round x * 10000000000000000000)"
  have n: "0 < n"
    using assms by simp
  have k: "0 \<le> k" "k \<le> n"
    using assms by simp_all
  have x: "0 \<le> x" "x \<le> 1"
    using n k by (simp_all add: x_def)
  have rate: "success_rate self = (Inr rate, self)"
    using success_rate_value [OF assms(1)] by (simp add: rate_def x_def assms(2,3))
  have zero: "rate = 0" if "\<forall>call \<in> set (call_logs self). \<not> success call"
  proof -
    from that have "filter success (call_logs self) = []"
      by (simp add: filter_empty_conv)
    then show ?thesis
      by (simp add: rate_def x_def assms(2) float_round_def)
  qed
  have full: "rate = 10 ^ 19" if "\<forall>call \<in> set (call_logs self). success call"
  proof -
    from that have "filter success (call_logs self) = call_logs self"
      by (simp add: filter_id_conv)
    then have "x = 1"
      using n by (simp add: x_def assms(2,3))
    then show ?thesis
      by (simp add: rate_def float_round_one float_round_ten_19)
  qed
  have same: "success_rate other = (Inr rate, other)"
    if "call_logs other \<noteq> [] \<and> int (length (filter success (call_logs other))) * n
              = k * int (length (call_logs other))"
  proof -
    define k' where "k' = int (length (filter success (call_logs other)))"
    define n' where "n' = int (length (call_logs other))"
    from that have n': "0 < n'" and eq: "k' * n = k * n'"
      by (simp_all add: k'_def n'_def)
    from eq have "(of_int (k' * n) :: rat) = of_int (k * n')"
      by (simp only:)
    then have "(of_int k' :: rat) * of_int n = of_int k * of_int n'"
      by simp
    with n n' have "(of_int k' :: rat) / of_int n' = x"
      unfolding x_def by (simp add: frac_eq_eq)
    then have "of_int (int (length (filter success (call_logs other))))
        / of_int (int (length (call_logs other))) = x"
      by (simp add: k'_def n'_def)
    with that show ?thesis
      using success_rate_value [of other] by (simp add: rate_def)
  qed
  from rate zero full same rate_bounds [OF x] show ?thesis
    by (auto simp: rate_def x_def)
qed

theorem success_rate_scale_witness:
  "call_logs example_store \<noteq> []
   \<and> success_rate example_store = (Inr 6666666666666665984, example_store)
   \<and> \<bar>6666666666666665984 - 10 ^ 19 * (of_int 2 / of_int 3)\<bar> \<le> (1580 :: rat)
   \<and> success_rate example_store_twice = (Inr 6666666666666665984, example_store_twice)
   \<and> success_rate \<lparr>call_logs = [example_call_2]\<rparr> = (Inr 0, \<lparr>call_logs = [example_call_2]\<rparr>)
   \<and> success_rate \<lparr>call_logs = [example_call_1, example_call_3]\<rparr>
       = (Inr (10 ^ 19), \<lparr>call_logs = [example_call_1, example_call_3]\<rparr>)"
proof -
  have nonempty: "call_logs example_store \<noteq> []"
    by (simp add: example_store_def)
  have k: "int (length (filter success (call_logs example_store))) = 2"
    by (simp add: example_store_def example_call_1_def example_call_2_def example_call_3_def)
  have n: "int (length (call_logs example_store)) = 3"
    by (simp add: example_store_def)
  have twice: "call_logs example_store_twice \<noteq> []
      \<and> int (length (filter success (call_logs example_store_twice))) * 3
          = 2 * int (length (call_logs example_store_twice))"
    by (simp add: example_store_twice_def example_call_1_def example_call_2_def
        example_call_3_def)
  from success_rate_scale [OF nonempty k [symmetric] n [symmetric], of example_store_twice]
  obtain rate where rate: "success_rate example_store = (Inr rate, example_store)"
    and near: "\<bar>rate - 10 ^ 19 * (of_int 2 / of_int 3)\<bar> \<le> 1580"
    and same: "call_logs example_store_twice \<noteq> []
      \<and> int (length (filter success (call_logs example_store_twice))) * 3
          = 2 * int (length (call_logs example_store_twice))
      \<longrightarrow> success_rate example_store_twice = (Inr rate, example_store_twice)"
    by (elim exE conjE)
  have "success_rate example_store = (Inr 6666666666666665984, example_store)"
    using success_rate_value [OF nonempty]
    by (simp only: k n of_int_numeral two_thirds_rate)
  with rate have "rate = 6666666666666665984"
    by simp
  with nonempty rate near same twice
  have main: "call_logs example_store \<noteq> []
   \<and> success_rate example_store = (Inr 6666666666666665984, example_store)
   \<and> \<bar>6666666666666665984 - 10 ^ 19 * (of_int 2 / of_int 3)\<bar> \<le> (1580 :: rat)
   \<and> success_rate example_store_twice = (Inr 6666666666666665984, example_store_twice)"
    by (simp only: simp_thms)
  have none: "\<forall>call \<in> set (call_logs \<lparr>call_logs = [example_call_2]\<rparr>). \<not> success call"
    by (simp add: example_call_2_def)
  have ne0: "call_logs \<lparr>call_logs = [example_call_2]\<rparr> \<noteq> []"
    by simp
  from success_rate_scale [OF ne0 refl refl, of init]
  obtain rate0 where "success_rate \<lparr>call_logs = [example_call_2]\<rparr>
        = (Inr rate0, \<lparr>call_logs = [example_call_2]\<rparr>)"
    and "(\<forall>call \<in> set (call_logs \<lparr>call_logs = [example_call_2]\<rparr>). \<not> success call)
        \<longrightarrow> rate0 = 0"
    by (elim exE conjE)
  with none have zero: "success_rate \<lparr>call_logs = [example_call_2]\<rparr>
      = (Inr 0, \<lparr>call_logs = [example_call_2]\<rparr>)"
    by (simp only:)
  have every: "\<forall>call \<in> set (call_logs \<lparr>call_logs = [example_call_1, example_call_3]\<rparr>).
      success call"
    by (simp add: example_call_1_def example_call_3_def)
  have ne1: "call_logs \<lparr>call_logs = [example_call_1, example_call_3]\<rparr> \<noteq> []"
    by simp
  from success_rate_scale [OF ne1 refl refl, of init]
  obtain rate1 where "success_rate \<lparr>call_logs = [example_call_1, example_call_3]\<rparr>
        = (Inr rate1, \<lparr>call_logs = [example_call_1, example_call_3]\<rparr>)"
    and "(\<forall>call \<in> set (call_logs \<lparr>call_logs = [example_call_1, example_call_3]\<rparr>).
            success call) \<longrightarrow> rate1 = 10 ^ 19"
    by (elim exE conjE)
  with every have full: "success_rate \<lparr>call_logs = [example_call_1, example_call_3]\<rparr>
       = (Inr (10 ^ 19), \<lparr>call_logs = [example_call_1, example_call_3]\<rparr>)"
    by (simp only:)
  from main zero full show ?thesis
    by (simp only: simp_thms)
qed

end
